theory Spec2Isabelle
  imports Complex_Main "HOL-Library.AList"
begin

section \<open>Tables and the model interface\<close>

text \<open>
  The solvers of \<^verbatim>\<open>mdp_network/solvers.py\<close> work on Python floats; the embedding
  takes them as real numbers, so that rounding, infinities and NaN are outside the model.
  States are an arbitrary type \<open>'s\<close>, actions are natural numbers (\<^verbatim>\<open>range(num_actions)\<close>).
  A Python dictionary that is iterated with \<^verbatim>\<open>.items()\<close> is an association list in
  insertion order.
\<close>

type_synonym 's value_table = "'s \<rightharpoonup> real"

type_synonym 's q_table = "'s \<Rightarrow> (nat \<times> real) list"

type_synonym 's policy_table = "'s \<Rightarrow> (nat \<times> real) list"

text \<open>
  Modelled from the spec: the classes \<^verbatim>\<open>ValueTable\<close> and \<^verbatim>\<open>QTable\<close> of the module
  \<^verbatim>\<open>mdp_tables\<close>, which is not among the sources. The spec gives \<^verbatim>\<open>get(state)\<close>,
  \<^verbatim>\<open>set(state, value)\<close> and a best-action query whose tie-break is the first action
  index achieving the maximum. A read of a key that was never set yields \<open>0\<close> here.
\<close>

definition get_value :: "'s value_table \<Rightarrow> 's \<Rightarrow> real" where
  "get_value vt s = (case vt s of Some v \<Rightarrow> v | None \<Rightarrow> 0)"

definition set_value :: "'s value_table \<Rightarrow> 's \<Rightarrow> real \<Rightarrow> 's value_table" where
  "set_value vt s v = vt(s \<mapsto> v)"

definition get_q_value :: "'s q_table \<Rightarrow> 's \<Rightarrow> nat \<Rightarrow> real" where
  "get_q_value q s a = (case map_of (q s) a of Some v \<Rightarrow> v | None \<Rightarrow> 0)"

definition set_q_value :: "'s q_table \<Rightarrow> 's \<Rightarrow> nat \<Rightarrow> real \<Rightarrow> 's q_table" where
  "set_q_value q s a v = q(s := AList.update a v (q s))"

definition get_best_action :: "'s q_table \<Rightarrow> 's \<Rightarrow> nat \<times> real" where
  "get_best_action q s =
     (case q s of
        [] \<Rightarrow> (0, 0)
      | (a0, v0) # rest \<Rightarrow>
          foldl (\<lambda>(best_a, best_v) (a, v). if best_v < v then (a, v) else (best_a, best_v))
            (a0, v0) rest)"

text \<open>
  The model object \<^verbatim>\<open>MDPNetwork\<close> as the solvers read it: its attributes and query
  methods. The two samplers take the random generator, whose state has type \<open>'r\<close>, and
  hand it back advanced.
\<close>

record ('s, 'r) mdp_network =
  states :: "'s list"
  num_actions :: nat
  start_states :: "'s list"
  is_terminal_state :: "'s \<Rightarrow> bool"
  get_transition_probabilities :: "'s \<Rightarrow> nat \<Rightarrow> ('s \<times> real) list"
  get_state_reward :: "'s \<Rightarrow> real"
  sample_start_state :: "'r \<Rightarrow> 's \<times> 'r"
  sample_next_state :: "'s \<Rightarrow> nat \<Rightarrow> 'r \<Rightarrow> 's \<times> 'r"

text \<open>What a solver prints: the messages are part of the result of a run.\<close>

datatype diagnostic =
    Converged nat
  | ReachedMaxIterations int
  | NoStartStates
  | Progress int int

datatype error = ZeroDivisionError | ValueError | KeyError

section \<open>The Bellman backup shared by the solvers\<close>

text \<open>
  \<^verbatim>\<open>if not transition_probs: transition_probs = {state: 1.0}\<close>, the same three lines
  in \<^verbatim>\<open>policy_evaluation\<close>, \<^verbatim>\<open>optimal_value_iteration\<close> and
  \<^verbatim>\<open>compute_occupancy_measure\<close>.
\<close>

definition resolve_transitions :: "('s, 'r) mdp_network \<Rightarrow> 's \<Rightarrow> nat \<Rightarrow> ('s \<times> real) list" where
  "resolve_transitions m state action =
     (let transition_probs = get_transition_probabilities m state action
      in if transition_probs = [] then [(state, 1)] else transition_probs)"

text \<open>
  The inner loop over \<^verbatim>\<open>transition_probs.items()\<close>:
  \<^verbatim>\<open>acc += prob * (reward + gamma * next_value)\<close>, starting from \<open>0\<close>.
\<close>

definition backup_sum ::
  "('s, 'r) mdp_network \<Rightarrow> real \<Rightarrow> 's value_table \<Rightarrow> ('s \<times> real) list \<Rightarrow> real" where
  "backup_sum m gamma vt transition_probs =
     foldl (\<lambda>acc (next_state, prob).
              acc + prob * (get_state_reward m next_state + gamma * get_value vt next_state))
       0 transition_probs"

definition init_value_table :: "'s list \<Rightarrow> 's value_table" where
  "init_value_table sts = fold (\<lambda>state vt. set_value vt state 0) sts Map.empty"

section \<open>\<^verbatim>\<open>policy_evaluation\<close>\<close>

text \<open>The loop over \<^verbatim>\<open>action_probs.items()\<close> that builds \<^verbatim>\<open>new_value\<close>.\<close>

definition pe_new_value ::
  "('s, 'r) mdp_network \<Rightarrow> 's policy_table \<Rightarrow> real \<Rightarrow> 's value_table \<Rightarrow> 's \<Rightarrow> real" where
  "pe_new_value m policy gamma vt state =
     foldl (\<lambda>new_value (action, action_prob).
              if action_prob \<le> 0 then new_value
              else new_value
                   + action_prob * backup_sum m gamma vt (resolve_transitions m state action))
       0 (policy state)"

text \<open>
  The body of \<^verbatim>\<open>for state in states\<close>: the table is written in place, and
  \<^verbatim>\<open>max_delta\<close> is carried along.
\<close>

fun pe_update_state ::
  "('s, 'r) mdp_network \<Rightarrow> 's policy_table \<Rightarrow> real \<Rightarrow> 's
     \<Rightarrow> 's value_table \<times> real \<Rightarrow> 's value_table \<times> real" where
  "pe_update_state m policy gamma state (vt, max_delta) =
     (if is_terminal_state m state then (set_value vt state 0, max_delta)
      else
        let old_value = get_value vt state;
            new_value = pe_new_value m policy gamma vt state
        in (set_value vt state new_value, max max_delta \<bar>new_value - old_value\<bar>))"

definition pe_sweep_states ::
  "('s, 'r) mdp_network \<Rightarrow> 's policy_table \<Rightarrow> real \<Rightarrow> 's list
     \<Rightarrow> 's value_table \<times> real \<Rightarrow> 's value_table \<times> real" where
  "pe_sweep_states m policy gamma sts acc = fold (pe_update_state m policy gamma) sts acc"

definition pe_sweep ::
  "('s, 'r) mdp_network \<Rightarrow> 's policy_table \<Rightarrow> real \<Rightarrow> 's value_table
     \<Rightarrow> 's value_table \<times> real" where
  "pe_sweep m policy gamma vt = pe_sweep_states m policy gamma (states m) (vt, 0)"

text \<open>
  \<^verbatim>\<open>for iteration in range(max_iterations)\<close> with its \<^verbatim>\<open>break\<close> and its
  \<^verbatim>\<open>else\<close>: the first argument counts the iterations left, the second is
  \<^verbatim>\<open>iteration\<close>. \<open>Some k\<close> is a break after \<open>k\<close> sweeps, \<open>None\<close> the exhausted loop.
\<close>

fun pe_iterate ::
  "('s, 'r) mdp_network \<Rightarrow> 's policy_table \<Rightarrow> real \<Rightarrow> real \<Rightarrow> nat \<Rightarrow> nat
     \<Rightarrow> 's value_table \<Rightarrow> 's value_table \<times> nat option" where
  "pe_iterate m policy gamma theta 0 iteration vt = (vt, None)"
| "pe_iterate m policy gamma theta (Suc n) iteration vt =
     (case pe_sweep m policy gamma vt of
        (vt', max_delta) \<Rightarrow>
          if max_delta < theta then (vt', Some (iteration + 1))
          else pe_iterate m policy gamma theta n (iteration + 1) vt')"

definition loop_message :: "int \<Rightarrow> nat option \<Rightarrow> diagnostic" where
  "loop_message max_iterations outcome =
     (case outcome of Some k \<Rightarrow> Converged k | None \<Rightarrow> ReachedMaxIterations max_iterations)"

definition policy_evaluation ::
  "('s, 'r) mdp_network \<Rightarrow> 's policy_table \<Rightarrow> real \<Rightarrow> real \<Rightarrow> int
     \<Rightarrow> 's value_table \<times> diagnostic list" where
  "policy_evaluation m policy gamma theta max_iterations =
     (case pe_iterate m policy gamma theta (nat max_iterations) 0 (init_value_table (states m)) of
        (value_table, outcome) \<Rightarrow> (value_table, [loop_message max_iterations outcome]))"

section \<open>\<^verbatim>\<open>optimal_value_iteration\<close>\<close>

definition init_q_table :: "'s list \<Rightarrow> nat \<Rightarrow> 's q_table" where
  "init_q_table sts n =
     fold (\<lambda>state q. fold (\<lambda>action q'. set_q_value q' state action 0) [0..<n] q)
       sts (\<lambda>_. [])"

text \<open>\<^verbatim>\<open>max(action_values) if action_values else 0.0\<close>\<close>

definition max_or_zero :: "real list \<Rightarrow> real" where
  "max_or_zero action_values =
     (case action_values of [] \<Rightarrow> 0 | x # xs \<Rightarrow> foldl max x xs)"

text \<open>
  The loop \<^verbatim>\<open>for action in range(num_actions)\<close> of a non-terminal state: every
  Q-value is stored and appended to \<^verbatim>\<open>action_values\<close>.
\<close>

definition ovi_action_values ::
  "('s, 'r) mdp_network \<Rightarrow> real \<Rightarrow> 's value_table \<Rightarrow> 's \<Rightarrow> 's q_table
     \<Rightarrow> 's q_table \<times> real list" where
  "ovi_action_values m gamma vt state q =
     fold (\<lambda>action (q', action_values).
             let q_value = backup_sum m gamma vt (resolve_transitions m state action)
             in (set_q_value q' state action q_value, action_values @ [q_value]))
       [0..<num_actions m] (q, [])"

fun ovi_update_state ::
  "('s, 'r) mdp_network \<Rightarrow> real \<Rightarrow> 's
     \<Rightarrow> 's value_table \<times> 's q_table \<times> real \<Rightarrow> 's value_table \<times> 's q_table \<times> real" where
  "ovi_update_state m gamma state (vt, q, max_delta) =
     (if is_terminal_state m state
      then (set_value vt state 0,
            fold (\<lambda>action q'. set_q_value q' state action 0) [0..<num_actions m] q,
            max_delta)
      else
        let old_value = get_value vt state in
        case ovi_action_values m gamma vt state q of
          (q', action_values) \<Rightarrow>
            let new_value = max_or_zero action_values
            in (set_value vt state new_value, q', max max_delta \<bar>new_value - old_value\<bar>))"

definition ovi_sweep ::
  "('s, 'r) mdp_network \<Rightarrow> real \<Rightarrow> 's value_table \<Rightarrow> 's q_table
     \<Rightarrow> 's value_table \<times> 's q_table \<times> real" where
  "ovi_sweep m gamma vt q = fold (ovi_update_state m gamma) (states m) (vt, q, 0)"

fun ovi_iterate ::
  "('s, 'r) mdp_network \<Rightarrow> real \<Rightarrow> real \<Rightarrow> nat \<Rightarrow> nat \<Rightarrow> 's value_table \<Rightarrow> 's q_table
     \<Rightarrow> 's value_table \<times> 's q_table \<times> nat option" where
  "ovi_iterate m gamma theta 0 iteration vt q = (vt, q, None)"
| "ovi_iterate m gamma theta (Suc n) iteration vt q =
     (case ovi_sweep m gamma vt q of
        (vt', q', max_delta) \<Rightarrow>
          if max_delta < theta then (vt', q', Some (iteration + 1))
          else ovi_iterate m gamma theta n (iteration + 1) vt' q')"

definition optimal_value_iteration ::
  "('s, 'r) mdp_network \<Rightarrow> real \<Rightarrow> real \<Rightarrow> int
     \<Rightarrow> 's value_table \<times> 's q_table \<times> diagnostic list" where
  "optimal_value_iteration m gamma theta max_iterations =
     (case ovi_iterate m gamma theta (nat max_iterations) 0
             (init_value_table (states m)) (init_q_table (states m) (num_actions m)) of
        (value_table, q_table, outcome) \<Rightarrow>
          (value_table, q_table, [loop_message max_iterations outcome]))"

section \<open>\<^verbatim>\<open>q_learning\<close>\<close>

text \<open>
  NumPy's \<^verbatim>\<open>Generator\<close> is a parameter of the model: the state a seed yields, and
  the two draws the learner makes, each returning the advanced state.
  \<^verbatim>\<open>default_rng(seed)\<close> is determined by a given seed and rejects a negative one; with
  \<^verbatim>\<open>seed=None\<close> it seeds itself from the operating system, which is the argument
  \<open>entropy\<close> of a run.
\<close>

record 'r generator =
  rng_seeded :: "int \<Rightarrow> 'r"
  rng_random :: "'r \<Rightarrow> real \<times> 'r"
  rng_integers :: "nat \<Rightarrow> 'r \<Rightarrow> nat \<times> 'r"

definition default_rng :: "'r generator \<Rightarrow> int option \<Rightarrow> int \<Rightarrow> error + 'r" where
  "default_rng g seed entropy =
     (case seed of
        None \<Rightarrow> Inr (rng_seeded g entropy)
      | Some k \<Rightarrow> if k < 0 then Inl ValueError else Inr (rng_seeded g k))"

text \<open>
  The epsilon-greedy choice. \<^verbatim>\<open>rng.integers(0, num_actions)\<close> raises
  \<^verbatim>\<open>ValueError\<close> when the range is empty.
\<close>

definition choose_action ::
  "'r generator \<Rightarrow> ('s, 'r) mdp_network \<Rightarrow> real \<Rightarrow> 's q_table \<Rightarrow> 's \<Rightarrow> 'r
     \<Rightarrow> error + nat \<times> 'r" where
  "choose_action g m epsilon q current_state rng =
     (case rng_random g rng of
        (u, rng1) \<Rightarrow>
          if u < epsilon then
            (if num_actions m = 0 then Inl ValueError
             else Inr (rng_integers g (num_actions m) rng1))
          else Inr (fst (get_best_action q current_state), rng1))"

text \<open>\<^verbatim>\<open>for step in range(max_steps_per_episode)\<close>; the first number counts the steps left.\<close>

fun run_episode ::
  "'r generator \<Rightarrow> ('s, 'r) mdp_network \<Rightarrow> real \<Rightarrow> real \<Rightarrow> real \<Rightarrow> nat \<Rightarrow> 's
     \<Rightarrow> 's q_table \<Rightarrow> 'r \<Rightarrow> error + 's q_table \<times> 'r" where
  "run_episode g m alpha gamma epsilon 0 current_state q rng = Inr (q, rng)"
| "run_episode g m alpha gamma epsilon (Suc n) current_state q rng =
     (if is_terminal_state m current_state then Inr (q, rng)
      else
        case choose_action g m epsilon q current_state rng of
          Inl e \<Rightarrow> Inl e
        | Inr (action, rng1) \<Rightarrow>
            (case sample_next_state m current_state action rng1 of
               (next_state, rng2) \<Rightarrow>
                 let reward = get_state_reward m next_state;
                     current_q = get_q_value q current_state action;
                     target_q =
                       (if is_terminal_state m next_state then reward
                        else reward + gamma * snd (get_best_action q next_state));
                     new_q = current_q + alpha * (target_q - current_q)
                 in run_episode g m alpha gamma epsilon n next_state
                      (set_q_value q current_state action new_q) rng2))"

text \<open>
  \<^verbatim>\<open>for episode in range(num_episodes)\<close>. After each episode the progress test
  \<^verbatim>\<open>(episode + 1) % (num_episodes // 10) == 0\<close> is evaluated; Python raises
  \<^verbatim>\<open>ZeroDivisionError\<close> on a zero modulus.
\<close>

fun run_episodes ::
  "'r generator \<Rightarrow> ('s, 'r) mdp_network \<Rightarrow> real \<Rightarrow> real \<Rightarrow> real \<Rightarrow> int \<Rightarrow> int
     \<Rightarrow> nat \<Rightarrow> int \<Rightarrow> 's q_table \<Rightarrow> 'r \<Rightarrow> diagnostic list
     \<Rightarrow> error + 's q_table \<times> diagnostic list" where
  "run_episodes g m alpha gamma epsilon num_episodes max_steps 0 episode q rng msgs =
     Inr (q, msgs)"
| "run_episodes g m alpha gamma epsilon num_episodes max_steps (Suc n) episode q rng msgs =
     (case sample_start_state m rng of
        (current_state, rng1) \<Rightarrow>
          (case run_episode g m alpha gamma epsilon (nat max_steps) current_state q rng1 of
             Inl e \<Rightarrow> Inl e
           | Inr (q', rng2) \<Rightarrow>
               if num_episodes div 10 = 0 then Inl ZeroDivisionError
               else
                 run_episodes g m alpha gamma epsilon num_episodes max_steps n (episode + 1)
                   q' rng2
                   (if (episode + 1) mod (num_episodes div 10) = 0
                    then msgs @ [Progress (episode + 1) num_episodes] else msgs)))"

definition extract_values :: "('s, 'r) mdp_network \<Rightarrow> 's q_table \<Rightarrow> 's value_table \<Rightarrow> 's value_table" where
  "extract_values m q vt =
     fold (\<lambda>state vt'.
             if is_terminal_state m state then set_value vt' state 0
             else set_value vt' state (snd (get_best_action q state)))
       (states m) vt"

definition q_learning ::
  "'r generator \<Rightarrow> ('s, 'r) mdp_network \<Rightarrow> real \<Rightarrow> real \<Rightarrow> real \<Rightarrow> int \<Rightarrow> int
     \<Rightarrow> int option \<Rightarrow> int \<Rightarrow> error + 's q_table \<times> 's value_table \<times> diagnostic list" where
  "q_learning g m alpha gamma epsilon num_episodes max_steps_per_episode seed entropy =
     (case default_rng g seed entropy of
        Inl e \<Rightarrow> Inl e
      | Inr rng \<Rightarrow>
          (case run_episodes g m alpha gamma epsilon num_episodes max_steps_per_episode
                  (nat num_episodes) 0 (init_q_table (states m) (num_actions m)) rng [] of
             Inl e \<Rightarrow> Inl e
           | Inr (q_table, msgs) \<Rightarrow>
               Inr (q_table, extract_values m q_table (init_value_table (states m)), msgs)))"

section \<open>\<^verbatim>\<open>compute_occupancy_measure\<close>\<close>

text \<open>
  The two distributions are Python dictionaries that are iterated, so they are association
  lists here. \<^verbatim>\<open>next_distribution[next_state] += ...\<close> raises \<^verbatim>\<open>KeyError\<close>
  for a key that is not in the dictionary, which holds the model's \<^verbatim>\<open>states\<close>.
\<close>

type_synonym 's distribution = "('s \<times> real) list"

definition zero_distribution :: "'s list \<Rightarrow> 's distribution" where
  "zero_distribution sts = fold (\<lambda>state d. AList.update state 0 d) sts []"

definition uniform_distribution :: "'s list \<Rightarrow> 's distribution" where
  "uniform_distribution start =
     (let initial_prob = 1 / real (length start)
      in fold (\<lambda>state d. AList.update state initial_prob d) start [])"

fun propagate ::
  "('s, 'r) mdp_network \<Rightarrow> real \<Rightarrow> real \<Rightarrow> real \<Rightarrow> ('s \<times> real) list \<Rightarrow> 's distribution
     \<Rightarrow> error + 's distribution" where
  "propagate m gamma state_prob action_prob [] nd = Inr nd"
| "propagate m gamma state_prob action_prob ((next_state, transition_prob) # rest) nd =
     (if \<not> is_terminal_state m next_state then
        (case map_of nd next_state of
           None \<Rightarrow> Inl KeyError
         | Some old \<Rightarrow>
             propagate m gamma state_prob action_prob rest
               (AList.update next_state
                  (old + state_prob * action_prob * transition_prob * gamma) nd))
      else propagate m gamma state_prob action_prob rest nd)"

fun occupancy_actions ::
  "('s, 'r) mdp_network \<Rightarrow> real \<Rightarrow> 's \<Rightarrow> real \<Rightarrow> (nat \<times> real) list \<Rightarrow> 's distribution
     \<Rightarrow> error + 's distribution" where
  "occupancy_actions m gamma state state_prob [] nd = Inr nd"
| "occupancy_actions m gamma state state_prob ((action, action_prob) # rest) nd =
     (if action_prob \<le> 0 then occupancy_actions m gamma state state_prob rest nd
      else
        case propagate m gamma state_prob action_prob (resolve_transitions m state action) nd of
          Inl e \<Rightarrow> Inl e
        | Inr nd' \<Rightarrow> occupancy_actions m gamma state state_prob rest nd')"

text \<open>The loop over \<^verbatim>\<open>current_distribution.items()\<close> of one iteration.\<close>

fun occupancy_states ::
  "('s, 'r) mdp_network \<Rightarrow> 's policy_table \<Rightarrow> real \<Rightarrow> 's distribution
     \<Rightarrow> 's value_table \<times> 's distribution \<times> real
     \<Rightarrow> error + 's value_table \<times> 's distribution \<times> real" where
  "occupancy_states m policy gamma [] acc = Inr acc"
| "occupancy_states m policy gamma ((state, state_prob) # rest) (occ, nd, max_change) =
     (if state_prob \<le> 0 \<or> is_terminal_state m state
      then occupancy_states m policy gamma rest (occ, nd, max_change)
      else
        let old_occupancy = get_value occ state;
            new_occupancy = old_occupancy + state_prob;
            occ' = set_value occ state new_occupancy;
            max_change' = max max_change \<bar>new_occupancy - old_occupancy\<bar>
        in case occupancy_actions m gamma state state_prob (policy state) nd of
             Inl e \<Rightarrow> Inl e
           | Inr nd' \<Rightarrow> occupancy_states m policy gamma rest (occ', nd', max_change'))"

definition occupancy_iteration ::
  "('s, 'r) mdp_network \<Rightarrow> 's policy_table \<Rightarrow> real \<Rightarrow> 's distribution \<Rightarrow> 's value_table
     \<Rightarrow> error + 's value_table \<times> 's distribution \<times> real" where
  "occupancy_iteration m policy gamma current_distribution occ =
     occupancy_states m policy gamma current_distribution
       (occ, zero_distribution (states m), 0)"

fun occupancy_iterate ::
  "('s, 'r) mdp_network \<Rightarrow> 's policy_table \<Rightarrow> real \<Rightarrow> real \<Rightarrow> nat \<Rightarrow> nat
     \<Rightarrow> 's distribution \<Rightarrow> 's value_table \<Rightarrow> error + 's value_table \<times> nat option" where
  "occupancy_iterate m policy gamma theta 0 iteration cur occ = Inr (occ, None)"
| "occupancy_iterate m policy gamma theta (Suc n) iteration cur occ =
     (case occupancy_iteration m policy gamma cur occ of
        Inl e \<Rightarrow> Inl e
      | Inr (occ', next_distribution, max_change) \<Rightarrow>
          if max_change < theta then Inr (occ', Some (iteration + 1))
          else occupancy_iterate m policy gamma theta n (iteration + 1) next_distribution occ')"

definition clear_terminal :: "('s, 'r) mdp_network \<Rightarrow> 's value_table \<Rightarrow> 's value_table" where
  "clear_terminal m occ =
     fold (\<lambda>state t. if is_terminal_state m state then set_value t state 0 else t)
       (states m) occ"

definition compute_occupancy_measure ::
  "('s, 'r) mdp_network \<Rightarrow> 's policy_table \<Rightarrow> real \<Rightarrow> real \<Rightarrow> int
     \<Rightarrow> error + 's value_table \<times> diagnostic list" where
  "compute_occupancy_measure m policy gamma theta max_iterations =
     (let occupancy_table = init_value_table (states m)
      in if start_states m = [] then Inr (occupancy_table, [NoStartStates])
         else
           case occupancy_iterate m policy gamma theta (nat max_iterations) 0
                  (uniform_distribution (start_states m)) occupancy_table of
             Inl e \<Rightarrow> Inl e
           | Inr (occ, outcome) \<Rightarrow>
               Inr (clear_terminal m occ, [loop_message max_iterations outcome]))"

section \<open>Reference definitions in the specification's words\<close>

text \<open>
  The specification describes the sweep of the policy evaluator as a Jacobi-style update:
  every new value is computed from the table as it stood when the sweep began. This is
  that sweep, to be compared with \<open>pe_sweep\<close>.
\<close>

definition pe_sweep_jacobi ::
  "('s, 'r) mdp_network \<Rightarrow> 's policy_table \<Rightarrow> real \<Rightarrow> 's value_table \<Rightarrow> 's value_table" where
  "pe_sweep_jacobi m policy gamma vt =
     fold (\<lambda>state vt'.
             if is_terminal_state m state then set_value vt' state 0
             else set_value vt' state (pe_new_value m policy gamma vt state))
       (states m) vt"

text \<open>
  The reward of one step from a state under an action: the reward of the next state,
  weighted by the transition distribution the solvers use.
\<close>

definition one_step_reward :: "('s, 'r) mdp_network \<Rightarrow> 's \<Rightarrow> nat \<Rightarrow> real" where
  "one_step_reward m state action =
     sum_list (map (\<lambda>(next_state, prob). prob * get_state_reward m next_state)
                 (resolve_transitions m state action))"

section \<open>Example models\<close>

text \<open>
  The two-state chain of the specification: \<open>State_A\<close> leads to the terminal
  \<open>State_B\<close> under the only action, with rewards \<open>0\<close> and \<open>1\<close>.
\<close>

datatype chain_state = State_A | State_B

definition chain :: "(chain_state, int) mdp_network" where
  "chain =
     \<lparr> states = [State_A, State_B],
       num_actions = 1,
       start_states = [State_A],
       is_terminal_state = (\<lambda>s. s = State_B),
       get_transition_probabilities =
         (\<lambda>s a. if s = State_A \<and> a = 0 then [(State_B, 1)] else []),
       get_state_reward = (\<lambda>s. if s = State_B then 1 else 0),
       sample_start_state = (\<lambda>r. (State_A, r)),
       sample_next_state = (\<lambda>s a r. (State_B, r)) \<rparr>"

definition chain_policy :: "chain_state policy_table" where
  "chain_policy = (\<lambda>s. [(0, 1)])"

text \<open>
  Three states in the order \<open>[Relay_First, Relay_Second, Relay_Goal]\<close>: the first leads to
  the terminal goal (reward \<open>1\<close>), the second leads to the first.
\<close>

datatype relay_state = Relay_First | Relay_Second | Relay_Goal

definition relay :: "(relay_state, int) mdp_network" where
  "relay =
     \<lparr> states = [Relay_First, Relay_Second, Relay_Goal],
       num_actions = 1,
       start_states = [Relay_Second],
       is_terminal_state = (\<lambda>s. s = Relay_Goal),
       get_transition_probabilities =
         (\<lambda>s a. if s = Relay_First then [(Relay_Goal, 1)]
                 else if s = Relay_Second then [(Relay_First, 1)] else []),
       get_state_reward = (\<lambda>s. if s = Relay_Goal then 1 else 0),
       sample_start_state = (\<lambda>r. (Relay_Second, r)),
       sample_next_state =
         (\<lambda>s a r. (if s = Relay_Second then Relay_First else Relay_Goal, r)) \<rparr>"

definition relay_policy :: "relay_state policy_table" where
  "relay_policy = (\<lambda>s. [(0, 1)])"

text \<open>
  A start state with two actions, the first leading to a terminal state of reward \<open>0\<close>,
  the second to a terminal state of reward \<open>1\<close>.
\<close>

datatype fork_state = Fork_Start | Fork_Left | Fork_Right

definition fork :: "(fork_state, int) mdp_network" where
  "fork =
     \<lparr> states = [Fork_Start, Fork_Left, Fork_Right],
       num_actions = 2,
       start_states = [Fork_Start],
       is_terminal_state = (\<lambda>s. s \<noteq> Fork_Start),
       get_transition_probabilities =
         (\<lambda>s a. if s = Fork_Start then [(if a = 0 then Fork_Left else Fork_Right, 1)] else []),
       get_state_reward = (\<lambda>s. if s = Fork_Right then 1 else 0),
       sample_start_state = (\<lambda>r. (Fork_Start, r)),
       sample_next_state = (\<lambda>s a r. (if a = 0 then Fork_Left else Fork_Right, r)) \<rparr>"

text \<open>A generator whose state is a counter, enough to run the learner on an example.\<close>

definition counting_generator :: "int generator" where
  "counting_generator =
     \<lparr> rng_seeded = (\<lambda>k. k),
       rng_random = (\<lambda>r. (real_of_int (r mod 10) / 10, r + 1)),
       rng_integers = (\<lambda>n r. (nat (r mod int n), r + 1)) \<rparr>"

text \<open>
  The otherwise identical model in which the pair \<open>(s, a)\<close> has the explicit self-loop
  \<^verbatim>\<open>{s: 1.0}\<close>.
\<close>

definition with_self_loop :: "('s, 'r) mdp_network \<Rightarrow> 's \<Rightarrow> nat \<Rightarrow> ('s, 'r) mdp_network" where
  "with_self_loop m s a =
     m\<lparr>get_transition_probabilities :=
         (\<lambda>s' a'. if s' = s \<and> a' = a then [(s, 1)] else get_transition_probabilities m s' a')\<rparr>"

text \<open>
  Two models that the solvers cannot tell apart: the same attributes, and the same
  distribution for every pair once an empty one has been replaced.
\<close>

definition same_resolved :: "('s, 'r) mdp_network \<Rightarrow> ('s, 'r) mdp_network \<Rightarrow> bool" where
  "same_resolved m m' =
     (states m' = states m \<and> num_actions m' = num_actions m
      \<and> start_states m' = start_states m \<and> is_terminal_state m' = is_terminal_state m
      \<and> get_state_reward m' = get_state_reward m
      \<and> resolve_transitions m' = resolve_transitions m)"

text \<open>
  The chain without any transition, every state earning the reward \<open>1\<close>: \<open>State_A\<close> is
  not terminal and its distribution is empty.
\<close>

definition stuck :: "(chain_state, int) mdp_network" where
  "stuck = chain\<lparr>get_transition_probabilities := (\<lambda>s a. []), get_state_reward := (\<lambda>s. 1)\<rparr>"

section \<open>Facts about the tables\<close>

lemma fold_set_value_zero:
  "fold (\<lambda>state vt. set_value vt state 0) sts vt0 s = (if s \<in> set sts then Some 0 else vt0 s)"
  by (induction sts arbitrary: vt0) (auto simp: set_value_def)

lemma init_value_table_apply:
  "init_value_table sts s = (if s \<in> set sts then Some 0 else None)"
  by (simp add: init_value_table_def fold_set_value_zero)

lemma get_value_init: "get_value (init_value_table sts) s = 0"
  by (simp add: get_value_def init_value_table_apply)

lemmas example_defs =
  init_value_table_def init_q_table_def ovi_sweep_def ovi_action_values_def backup_sum_def
  resolve_transitions_def get_value_def set_value_def max_or_zero_def set_q_value_def
  get_q_value_def loop_message_def pe_sweep_def pe_sweep_states_def pe_new_value_def

section \<open>States whose value a sweep of the policy evaluator pins\<close>

text \<open>
  A state whose update writes the same value \<open>c\<close> whatever the table holds has the value
  \<open>c\<close> after every sweep, since the update of another state does not touch its entry.
\<close>

lemma pe_update_state_other:
  "t \<noteq> s \<Longrightarrow> fst (pe_update_state m policy gamma t acc) s = fst acc s"
  by (cases acc) (simp add: set_value_def Let_def)

lemma pe_sweep_states_pinned_keep:
  assumes "\<And>acc. fst (pe_update_state m policy gamma s acc) s = Some c"
  shows "fst acc s = Some c \<Longrightarrow> fst (pe_sweep_states m policy gamma sts acc) s = Some c"
proof (induction sts arbitrary: acc)
  case Nil
  then show ?case by (simp add: pe_sweep_states_def)
next
  case (Cons t sts)
  have "fst (pe_update_state m policy gamma t acc) s = Some c"
    using assms Cons.prems pe_update_state_other [of t s m policy gamma acc]
    by (cases "t = s") auto
  from Cons.IH [OF this] show ?case by (simp add: pe_sweep_states_def)
qed

lemma pe_sweep_states_pinned:
  assumes "\<And>acc. fst (pe_update_state m policy gamma s acc) s = Some c"
  shows "s \<in> set sts \<Longrightarrow> fst (pe_sweep_states m policy gamma sts acc) s = Some c"
proof (induction sts arbitrary: acc)
  case Nil
  then show ?case by simp
next
  case (Cons t sts)
  show ?case
  proof (cases "s \<in> set sts")
    case True
    from Cons.IH [OF True] show ?thesis by (simp add: pe_sweep_states_def)
  next
    case False
    with Cons.prems have ts: "t = s" by simp
    have "fst (pe_sweep_states m policy gamma sts (pe_update_state m policy gamma s acc)) s
            = Some c"
      by (rule pe_sweep_states_pinned_keep [OF assms]) (rule assms)
    then show ?thesis by (simp add: pe_sweep_states_def ts)
  qed
qed

lemma pe_iterate_pinned:
  assumes "\<And>acc. fst (pe_update_state m policy gamma s acc) s = Some c"
    and "s \<in> set (states m)"
  shows "vt s = Some c \<Longrightarrow> fst (pe_iterate m policy gamma theta n it vt) s = Some c"
proof (induction n arbitrary: it vt)
  case 0
  then show ?case by simp
next
  case (Suc n)
  have sw: "fst (pe_sweep m policy gamma vt) s = Some c"
    unfolding pe_sweep_def by (rule pe_sweep_states_pinned [OF assms])
  obtain vt' md where eq: "pe_sweep m policy gamma vt = (vt', md)"
    by (cases "pe_sweep m policy gamma vt")
  with sw have "vt' s = Some c" by simp
  with Suc.IH [of vt' "it + 1"] eq show ?case by simp
qed

lemma fst_policy_evaluation:
  "fst (policy_evaluation m policy gamma theta max_iterations)
     = fst (pe_iterate m policy gamma theta (nat max_iterations) 0 (init_value_table (states m)))"
  by (simp add: policy_evaluation_def split: prod.splits)

lemma pe_new_value_nonpositive:
  assumes "\<forall>(a, p) \<in> set (policy s). p \<le> 0"
  shows "pe_new_value m policy gamma vt s = 0"
proof -
  have "\<forall>(a, p) \<in> set xs. p \<le> 0 \<Longrightarrow>
    foldl (\<lambda>new_value (action, action_prob).
              if action_prob \<le> 0 then new_value
              else new_value
                   + action_prob * backup_sum m gamma vt (resolve_transitions m s action))
      acc xs = acc" for xs acc
    by (induction xs arbitrary: acc) auto
  from this [OF assms] show ?thesis by (simp add: pe_new_value_def)
qed

section \<open>The chain of the specification under the optimal value solver\<close>

lemma chain_optimal_value_iteration:
  "fst (optimal_value_iteration chain (9/10) (1/1000000) 1000) State_A = Some 1
   \<and> fst (optimal_value_iteration chain (9/10) (1/1000000) 1000) State_B = Some 0
   \<and> fst (snd (optimal_value_iteration chain (9/10) (1/1000000) 1000)) State_A = [(0, 1)]
   \<and> snd (snd (optimal_value_iteration chain (9/10) (1/1000000) 1000)) = [Converged 2]"
  by (simp add: optimal_value_iteration_def eval_nat_numeral example_defs chain_def)

text \<open>
  C1, as stated, does not hold: on the chain with \<open>gamma = 0.9\<close> and the default
  \<open>theta = 1e-6\<close> and \<open>max_iterations = 1000\<close> the value of \<open>State_A\<close> is not \<open>0.9\<close>.
  The reward is the one of the state arrived at, so the backup of \<open>State_A\<close> is
  \<open>1 * (reward(State_B) + 0.9 * value(State_B)) = 1\<close>.
\<close>

theorem C1_counterexample:
  "get_value (fst (optimal_value_iteration chain (9/10) (1/1000000) 1000)) State_A \<noteq> 9/10"
  using chain_optimal_value_iteration by (simp add: get_value_def)

text \<open>
  C1, amended: on the chain with \<open>gamma = 0.9\<close> and the default \<open>theta\<close> and
  \<open>max_iterations\<close>, \<open>optimal_value_iteration\<close> returns value(B) = 0, value(A) = 1 and
  Q(A, 0) = 1.
\<close>

theorem C1_chain_values:
  "get_value (fst (optimal_value_iteration chain (9/10) (1/1000000) 1000)) State_B = 0
   \<and> get_value (fst (optimal_value_iteration chain (9/10) (1/1000000) 1000)) State_A = 1
   \<and> get_q_value (fst (snd (optimal_value_iteration chain (9/10) (1/1000000) 1000))) State_A 0 = 1"
  using chain_optimal_value_iteration by (simp add: get_value_def get_q_value_def)

section \<open>No start states\<close>

text \<open>
  C8: if the model has no start states, \<open>compute_occupancy_measure\<close> does not raise: it
  returns the freshly initialised table, in which every state of the model has the entry
  \<open>0\<close>, and its only message is the warning, so the iterative loop was not entered.
\<close>

theorem C8_no_start_states:
  assumes "start_states m = []"
  shows "compute_occupancy_measure m policy gamma theta max_iterations
           = Inr (init_value_table (states m), [NoStartStates])
       \<and> (\<forall>s \<in> set (states m). init_value_table (states m) s = Some 0)
       \<and> (\<forall>s. get_value (init_value_table (states m)) s = 0)"
  using assms by (simp add: compute_occupancy_measure_def init_value_table_apply get_value_init)

text \<open>Witness of C8: the chain without its start state.\<close>

theorem C8_witness:
  "start_states (chain\<lparr>start_states := []\<rparr>) = []
   \<and> compute_occupancy_measure (chain\<lparr>start_states := []\<rparr>) chain_policy (9/10) (1/1000000) 1000
       = Inr ([State_A \<mapsto> 0, State_B \<mapsto> 0], [NoStartStates])"
  using C8_no_start_states [of "chain\<lparr>start_states := []\<rparr>" chain_policy "9/10" "1/1000000" 1000]
  by (simp add: chain_def init_value_table_def set_value_def)

section \<open>A state without an action of positive probability\<close>

text \<open>
  C10: if the policy's distribution for a non-terminal state of the model is empty or holds
  only non-positive probabilities, then every sweep of \<open>policy_evaluation\<close> writes \<open>0\<close> for
  that state, whatever the table held, and the returned table has \<open>0\<close> for it.
\<close>

theorem C10_policy_without_positive_action:
  assumes "s \<in> set (states m)" and "\<not> is_terminal_state m s"
    and "\<forall>(a, p) \<in> set (policy s). p \<le> 0"
  shows "fst (policy_evaluation m policy gamma theta max_iterations) s = Some 0
       \<and> (\<forall>vt. fst (pe_sweep m policy gamma vt) s = Some 0)"
proof -
  have upd: "fst (pe_update_state m policy gamma s acc) s = Some 0" for acc
    using assms(2) assms(3) pe_new_value_nonpositive [of policy s m gamma]
    by (cases acc) (simp add: set_value_def Let_def)
  have "fst (pe_iterate m policy gamma theta (nat max_iterations) 0
               (init_value_table (states m))) s = Some 0"
    by (rule pe_iterate_pinned [OF upd assms(1)]) (simp add: init_value_table_apply assms(1))
  moreover have "fst (pe_sweep m policy gamma vt) s = Some 0" for vt
    unfolding pe_sweep_def by (rule pe_sweep_states_pinned [OF upd assms(1)])
  ultimately show ?thesis
    by (simp add: fst_policy_evaluation)
qed

text \<open>
  Witness of C10: the chain under a policy that gives the only action probability \<open>0\<close>.
\<close>

theorem C10_witness:
  "State_A \<in> set (states chain) \<and> \<not> is_terminal_state chain State_A
   \<and> fst (policy_evaluation chain (\<lambda>s. [(0, 0)]) (9/10) (1/1000000) 1000) State_A = Some 0"
  using C10_policy_without_positive_action
          [of State_A chain "\<lambda>s. [(0, 0)]" "9/10" "1/1000000" 1000]
  by (simp add: chain_def)

section \<open>States whose entries a sweep of the optimal value solver pins\<close>

lemma set_q_value_other: "t \<noteq> s \<Longrightarrow> set_q_value q t a v s = q s"
  by (simp add: set_q_value_def)

lemma fold_set_q_value_other:
  "t \<noteq> s \<Longrightarrow> fold (\<lambda>action q'. set_q_value q' t action (f action)) xs q s = q s"
  by (induction xs arbitrary: q) (simp_all add: set_q_value_other)

lemma map_of_fold_set_q_value_const:
  "map_of (fold (\<lambda>action q'. set_q_value q' s action c) xs q s) a
     = (if a \<in> set xs then Some c else map_of (q s) a)"
  by (induction xs arbitrary: q) (auto simp: set_q_value_def update_conv')

lemma ovi_action_values_fold:
  "fold (\<lambda>action (q', action_values).
             let q_value = f action
             in (set_q_value q' s action q_value, action_values @ [q_value])) xs (q, avs)
     = (fold (\<lambda>action q'. set_q_value q' s action (f action)) xs q, avs @ map f xs)"
  by (induction xs arbitrary: q avs) (simp_all add: Let_def)

lemma ovi_action_values_eq:
  "ovi_action_values m gamma vt s q
     = (fold (\<lambda>action q'. set_q_value q' s action
                 (backup_sum m gamma vt (resolve_transitions m s action)))
          [0..<num_actions m] q,
        map (\<lambda>action. backup_sum m gamma vt (resolve_transitions m s action))
          [0..<num_actions m])"
  unfolding ovi_action_values_def by (simp add: ovi_action_values_fold)

lemma ovi_update_state_other:
  assumes "t \<noteq> s"
  shows "fst (ovi_update_state m gamma t acc) s = fst acc s"
    and "fst (snd (ovi_update_state m gamma t acc)) s = fst (snd acc) s"
  using assms
  by (cases acc; simp add: ovi_action_values_eq fold_set_q_value_other set_value_def Let_def)+

lemma ovi_sweep_keep:
  assumes "\<And>acc. P (fst acc s) (fst (snd acc) s)
             \<Longrightarrow> P (fst (ovi_update_state m gamma s acc) s)
                   (fst (snd (ovi_update_state m gamma s acc)) s)"
  shows "P (fst acc s) (fst (snd acc) s)
     \<Longrightarrow> P (fst (fold (ovi_update_state m gamma) sts acc) s)
           (fst (snd (fold (ovi_update_state m gamma) sts acc)) s)"
proof (induction sts arbitrary: acc)
  case Nil
  then show ?case by simp
next
  case (Cons t sts)
  have "P (fst (ovi_update_state m gamma t acc) s) (fst (snd (ovi_update_state m gamma t acc)) s)"
  proof (cases "t = s")
    case True
    with assms [OF Cons.prems] show ?thesis by simp
  next
    case False
    with Cons.prems show ?thesis by (simp add: ovi_update_state_other)
  qed
  from Cons.IH [OF this] show ?case by simp
qed

lemma ovi_sweep_pinned:
  assumes "\<And>acc. P (fst (ovi_update_state m gamma s acc) s)
                   (fst (snd (ovi_update_state m gamma s acc)) s)"
  shows "s \<in> set sts
     \<Longrightarrow> P (fst (fold (ovi_update_state m gamma) sts acc) s)
           (fst (snd (fold (ovi_update_state m gamma) sts acc)) s)"
proof (induction sts arbitrary: acc)
  case Nil
  then show ?case by simp
next
  case (Cons t sts)
  show ?case
  proof (cases "s \<in> set sts")
    case True
    from Cons.IH [OF True] show ?thesis by simp
  next
    case False
    with Cons.prems have ts: "t = s" by simp
    have "P (fst (fold (ovi_update_state m gamma) sts (ovi_update_state m gamma s acc)) s)
            (fst (snd (fold (ovi_update_state m gamma) sts (ovi_update_state m gamma s acc))) s)"
      by (rule ovi_sweep_keep [where P = P]) (rule assms)+
    then show ?thesis by (simp add: ts)
  qed
qed

lemma ovi_iterate_keep:
  assumes "\<And>acc. P (fst acc s) (fst (snd acc) s)
             \<Longrightarrow> P (fst (ovi_update_state m gamma s acc) s)
                   (fst (snd (ovi_update_state m gamma s acc)) s)"
  shows "P (vt s) (q s)
     \<Longrightarrow> P (fst (ovi_iterate m gamma theta n it vt q) s)
           (fst (snd (ovi_iterate m gamma theta n it vt q)) s)"
proof (induction n arbitrary: it vt q)
  case 0
  then show ?case by simp
next
  case (Suc n)
  obtain vt' q' md where eq: "ovi_sweep m gamma vt q = (vt', q', md)"
    by (cases "ovi_sweep m gamma vt q")
  have "P (fst (ovi_sweep m gamma vt q) s) (fst (snd (ovi_sweep m gamma vt q)) s)"
    unfolding ovi_sweep_def
    by (rule ovi_sweep_keep [where P = P]) (use assms Suc.prems in simp_all)
  with eq have "P (vt' s) (q' s)" by simp
  with Suc.IH [of vt' q' "it + 1"] eq show ?case by simp
qed

lemma ovi_iterate_pinned:
  assumes "\<And>acc. P (fst (ovi_update_state m gamma s acc) s)
                   (fst (snd (ovi_update_state m gamma s acc)) s)"
    and "s \<in> set (states m)" and "0 < n"
  shows "P (fst (ovi_iterate m gamma theta n it vt q) s)
           (fst (snd (ovi_iterate m gamma theta n it vt q)) s)"
proof -
  obtain k where n: "n = Suc k" using assms(3) by (cases n) auto
  obtain vt' q' md where eq: "ovi_sweep m gamma vt q = (vt', q', md)"
    by (cases "ovi_sweep m gamma vt q")
  have "P (fst (ovi_sweep m gamma vt q) s) (fst (snd (ovi_sweep m gamma vt q)) s)"
    unfolding ovi_sweep_def by (rule ovi_sweep_pinned [where P = P]) (rule assms)+
  with eq have start: "P (vt' s) (q' s)" by simp
  have "P (fst (ovi_iterate m gamma theta k (it + 1) vt' q') s)
          (fst (snd (ovi_iterate m gamma theta k (it + 1) vt' q')) s)"
    by (rule ovi_iterate_keep [where P = P]) (use assms(1) start in simp_all)
  with eq start show ?thesis by (simp add: n)
qed

lemma fst_optimal_value_iteration:
  "fst (optimal_value_iteration m gamma theta max_iterations)
     = fst (ovi_iterate m gamma theta (nat max_iterations) 0
              (init_value_table (states m)) (init_q_table (states m) (num_actions m)))"
  "fst (snd (optimal_value_iteration m gamma theta max_iterations))
     = fst (snd (ovi_iterate m gamma theta (nat max_iterations) 0
              (init_value_table (states m)) (init_q_table (states m) (num_actions m))))"
  "snd (snd (optimal_value_iteration m gamma theta max_iterations))
     = [loop_message max_iterations (snd (snd (ovi_iterate m gamma theta (nat max_iterations) 0
              (init_value_table (states m)) (init_q_table (states m) (num_actions m)))))]"
  by (simp_all add: optimal_value_iteration_def split: prod.splits)

lemma map_of_fold_set_q_value_any:
  "map_of (fold (\<lambda>action q'. set_q_value q' t action c) xs q s) a
     = (if t = s \<and> a \<in> set xs then Some c else map_of (q s) a)"
  by (cases "t = s") (simp_all add: map_of_fold_set_q_value_const fold_set_q_value_other)

lemma init_q_table_fold:
  "map_of (fold (\<lambda>state q. fold (\<lambda>action q'. set_q_value q' state action 0) [0..<n] q)
       sts q0 s) a = (if s \<in> set sts \<and> a < n then Some 0 else map_of (q0 s) a)"
  by (induction sts arbitrary: q0)
     (auto simp: map_of_fold_set_q_value_any)

lemma map_of_init_q_table:
  "map_of (init_q_table sts n s) a = (if s \<in> set sts \<and> a < n then Some 0 else None)"
  by (simp add: init_q_table_def init_q_table_fold)

section \<open>Terminal states\<close>

text \<open>
  C2: whatever the model, the policy and the parameters, the table returned by
  \<open>policy_evaluation\<close> and the one returned by \<open>optimal_value_iteration\<close> hold \<open>0\<close> for
  every terminal state of the model, and the Q-table returned by
  \<open>optimal_value_iteration\<close> holds \<open>0\<close> for such a state and every action.
\<close>

theorem C2_terminal_states_zero:
  assumes "s \<in> set (states m)" and "is_terminal_state m s"
  shows "fst (policy_evaluation m policy gamma theta max_iterations) s = Some 0
       \<and> fst (optimal_value_iteration m gamma' theta' max_iterations') s = Some 0
       \<and> (\<forall>a. get_q_value
                 (fst (snd (optimal_value_iteration m gamma' theta' max_iterations'))) s a = 0)
       \<and> (\<forall>a < num_actions m.
             map_of (fst (snd (optimal_value_iteration m gamma' theta' max_iterations')) s) a
               = Some 0)"
proof -
  have pe: "fst (pe_update_state m policy gamma s acc) s = Some 0" for acc
    using assms(2) by (cases acc) (simp add: set_value_def)
  have "fst (pe_iterate m policy gamma theta (nat max_iterations) 0
               (init_value_table (states m))) s = Some 0"
    by (rule pe_iterate_pinned [OF pe assms(1)]) (simp add: init_value_table_apply assms(1))
  then have 1: "fst (policy_evaluation m policy gamma theta max_iterations) s = Some 0"
    by (simp add: fst_policy_evaluation)
  define P where "P = (\<lambda>(v :: real option) (ql :: (nat \<times> real) list).
     v = Some 0 \<and> map_of ql = (\<lambda>a. if a < num_actions m then Some 0 else None))"
  have keep: "P (fst (ovi_update_state m gamma' s acc) s)
                (fst (snd (ovi_update_state m gamma' s acc)) s)"
    if "P (fst acc s) (fst (snd acc) s)" for acc
    using that assms(2)
    by (cases acc) (auto simp: P_def set_value_def map_of_fold_set_q_value_const fun_eq_iff)
  have init: "P (init_value_table (states m) s) (init_q_table (states m) (num_actions m) s)"
    using assms(1) by (simp add: P_def init_value_table_apply map_of_init_q_table fun_eq_iff)
  have "P (fst (ovi_iterate m gamma' theta' (nat max_iterations') 0
                 (init_value_table (states m)) (init_q_table (states m) (num_actions m))) s)
          (fst (snd (ovi_iterate m gamma' theta' (nat max_iterations') 0
                 (init_value_table (states m)) (init_q_table (states m) (num_actions m)))) s)"
    by (rule ovi_iterate_keep [where P = P]) (erule keep, rule init)
  then have 2: "P (fst (optimal_value_iteration m gamma' theta' max_iterations') s)
                  (fst (snd (optimal_value_iteration m gamma' theta' max_iterations')) s)"
    by (simp add: fst_optimal_value_iteration)
  from 1 2 show ?thesis by (simp add: P_def get_q_value_def)
qed

lemma chain_policy_evaluation:
  "fst (policy_evaluation chain chain_policy (9/10) (1/1000000) 1000) State_A = Some 1
   \<and> fst (policy_evaluation chain chain_policy (9/10) (1/1000000) 1000) State_B = Some 0
   \<and> snd (policy_evaluation chain chain_policy (9/10) (1/1000000) 1000) = [Converged 2]"
  by (simp add: policy_evaluation_def eval_nat_numeral example_defs chain_def chain_policy_def)

text \<open>Witness of C2: the terminal state of the chain.\<close>

theorem C2_witness:
  "State_B \<in> set (states chain) \<and> is_terminal_state chain State_B
   \<and> fst (policy_evaluation chain chain_policy (9/10) (1/1000000) 1000) State_B = Some 0
   \<and> fst (optimal_value_iteration chain (9/10) (1/1000000) 1000) State_B = Some 0
   \<and> get_q_value (fst (snd (optimal_value_iteration chain (9/10) (1/1000000) 1000))) State_B 0 = 0"
  using C2_terminal_states_zero
          [of State_B chain chain_policy "9/10" "1/1000000" 1000 "9/10" "1/1000000" 1000]
  by (simp add: chain_def)


section \<open>No discount\<close>

lemma backup_sum_gamma_zero_aux:
  "foldl (\<lambda>acc (next_state, prob).
              acc + prob * (get_state_reward m next_state + 0 * get_value vt next_state))
       a tps
     = a + sum_list (map (\<lambda>(next_state, prob). prob * get_state_reward m next_state) tps)"
  by (induction tps arbitrary: a) (auto simp: algebra_simps)

lemma backup_sum_gamma_zero:
  "backup_sum m 0 vt (resolve_transitions m s a) = one_step_reward m s a"
  using backup_sum_gamma_zero_aux [of m vt 0] by (simp add: backup_sum_def one_step_reward_def)

lemma foldl_max_Max: "foldl max (x :: real) xs = Max (set (x # xs))"
proof -
  have "(\<lambda>(y :: real) a. max a y) = max" by (intro ext) (simp add: max.commute)
  then have "foldl max x xs = fold max xs x" by (simp add: foldl_conv_fold)
  also have "\<dots> = Max (set (x # xs))" by (rule Max.set_eq_fold [symmetric])
  finally show ?thesis .
qed

lemma max_or_zero_map:
  "max_or_zero (map f [0..<n]) = (if n = 0 then 0 else Max (f ` {..<n}))"
proof (cases "map f [0..<n]")
  case Nil
  then show ?thesis by (simp add: max_or_zero_def)
next
  case (Cons x xs)
  have "n \<noteq> 0"
  proof
    assume "n = 0"
    with Cons show False by simp
  qed
  moreover have "max_or_zero (map f [0..<n]) = Max (set (map f [0..<n]))"
    unfolding Cons by (simp only: max_or_zero_def list.case foldl_max_Max)
  ultimately show ?thesis by (simp add: atLeast0LessThan)
qed

lemma ovi_iterate_zero_outcome:
  "snd (snd (ovi_iterate m gamma theta 0 it vt q)) = None"
  by simp

text \<open>
  C7: with \<open>gamma = 0\<close>, once \<open>optimal_value_iteration\<close> has reported convergence, the
  value it returns for a non-terminal state of the model is the maximum over the actions
  of the one-step reward (the reward of the next state, weighted by the transition
  distribution), whatever \<open>theta\<close> and \<open>max_iterations\<close> are; with no action at all the
  value is \<open>0\<close>.
\<close>

theorem C7_gamma_zero:
  assumes "s \<in> set (states m)" and "\<not> is_terminal_state m s"
    and "snd (snd (optimal_value_iteration m 0 theta max_iterations)) = [Converged k]"
  shows "fst (optimal_value_iteration m 0 theta max_iterations) s
           = Some (if num_actions m = 0 then 0
                   else Max (one_step_reward m s ` {..<num_actions m}))"
proof -
  let ?c = "if num_actions m = 0 then 0 else Max (one_step_reward m s ` {..<num_actions m})"
  have pos: "0 < nat max_iterations"
  proof (rule ccontr)
    assume "\<not> 0 < nat max_iterations"
    then have "nat max_iterations = 0" by simp
    with assms(3) show False
      by (simp add: fst_optimal_value_iteration loop_message_def)
  qed
  have upd: "fst (ovi_update_state m 0 s acc) s = Some ?c" for acc
    using assms(2)
    by (cases acc)
       (simp add: ovi_action_values_eq backup_sum_gamma_zero max_or_zero_map set_value_def
          Let_def)
  have "fst (ovi_iterate m 0 theta (nat max_iterations) 0
               (init_value_table (states m)) (init_q_table (states m) (num_actions m))) s
          = Some ?c"
    by (rule ovi_iterate_pinned [where P = "\<lambda>v ql. v = Some ?c", OF upd assms(1) pos])
  then show ?thesis by (simp add: fst_optimal_value_iteration)
qed

text \<open>Witness of C7: the chain, whose only step from \<open>State_A\<close> earns the reward \<open>1\<close>.\<close>

theorem C7_witness:
  "State_A \<in> set (states chain) \<and> \<not> is_terminal_state chain State_A
   \<and> snd (snd (optimal_value_iteration chain 0 (1/1000000) 1000)) = [Converged 2]
   \<and> fst (optimal_value_iteration chain 0 (1/1000000) 1000) State_A = Some 1"
proof -
  have c: "snd (snd (optimal_value_iteration chain 0 (1/1000000) 1000)) = [Converged 2]"
    by (simp add: optimal_value_iteration_def eval_nat_numeral example_defs chain_def)
  have "State_A \<in> set (states chain)" "\<not> is_terminal_state chain State_A"
    by (simp_all add: chain_def)
  from C7_gamma_zero [OF this c] c show ?thesis
    by (simp add: chain_def one_step_reward_def resolve_transitions_def lessThan_Suc)
qed

section \<open>The order of updates within a sweep\<close>

lemma relay_sweep:
  "fst (pe_sweep relay relay_policy (9/10) (init_value_table (states relay))) Relay_Second
     = Some (9/10)"
  by (simp add: example_defs relay_def relay_policy_def)

text \<open>
  C5, as stated, does not hold. In the relay model the first sweep writes \<open>1\<close> for
  \<open>Relay_First\<close> and then computes the value of \<open>Relay_Second\<close>, whose only next state is
  \<open>Relay_First\<close>, from that new value: it is \<open>0.9\<close>, where the table as it stood at the
  start of the sweep gives \<open>0\<close>.
\<close>

theorem C5_counterexample:
  "fst (pe_sweep relay relay_policy (9/10) (init_value_table (states relay))) Relay_Second
     = Some (9/10)
   \<and> pe_sweep_jacobi relay relay_policy (9/10) (init_value_table (states relay)) Relay_Second
     = Some 0"
  by (simp add: example_defs pe_sweep_jacobi_def relay_def relay_policy_def)

lemma pe_sweep_states_untouched:
  "s \<notin> set sts \<Longrightarrow> fst (pe_sweep_states m policy gamma sts acc) s = fst acc s"
proof (induction sts arbitrary: acc)
  case Nil
  show ?case by (simp add: pe_sweep_states_def)
next
  case (Cons t sts)
  then have "t \<noteq> s" and "s \<notin> set sts" by auto
  with Cons.IH [of "pe_update_state m policy gamma t acc"]
       pe_update_state_other [of t s m policy gamma acc]
  show ?case by (simp add: pe_sweep_states_def)
qed

lemma pe_sweep_states_append:
  "pe_sweep_states m policy gamma (xs @ ys) acc
     = pe_sweep_states m policy gamma ys (pe_sweep_states m policy gamma xs acc)"
  by (simp add: pe_sweep_states_def)

lemma pe_update_state_self:
  "\<not> is_terminal_state m s
     \<Longrightarrow> fst (pe_update_state m policy gamma s acc) s
           = Some (pe_new_value m policy gamma (fst acc) s)"
  by (cases acc) (simp add: set_value_def Let_def)

text \<open>
  C5, amended: a sweep of \<open>policy_evaluation\<close> updates the table in place, in the order
  of the model's states. The new value of a non-terminal state is computed from the
  table as the states before it in the sweep have left it: it holds the values written
  in this sweep for those states, and the values from the start of the sweep for every
  other state.
\<close>

theorem C5_in_place_sweep:
  assumes "states m = pre @ s # post" and "s \<notin> set post" and "\<not> is_terminal_state m s"
  shows "fst (pe_sweep m policy gamma vt) s
           = Some (pe_new_value m policy gamma
                     (fst (pe_sweep_states m policy gamma pre (vt, 0))) s)
       \<and> (\<forall>t. t \<notin> set pre \<longrightarrow> fst (pe_sweep_states m policy gamma pre (vt, 0)) t = vt t)"
proof -
  let ?acc = "pe_sweep_states m policy gamma pre (vt, 0)"
  have "pe_sweep m policy gamma vt
          = pe_sweep_states m policy gamma post (pe_update_state m policy gamma s ?acc)"
    by (simp add: pe_sweep_def assms(1) pe_sweep_states_def)
  then have "fst (pe_sweep m policy gamma vt) s = fst (pe_update_state m policy gamma s ?acc) s"
    by (simp add: pe_sweep_states_untouched [OF assms(2)])
  then show ?thesis
    by (simp add: pe_update_state_self [OF assms(3)] pe_sweep_states_untouched)
qed

text \<open>Witness of C5: the second state of the relay model.\<close>

theorem C5_witness:
  "states relay = [Relay_First] @ Relay_Second # [Relay_Goal]
   \<and> Relay_Second \<notin> set [Relay_Goal] \<and> \<not> is_terminal_state relay Relay_Second
   \<and> fst (pe_sweep relay relay_policy (9/10) (init_value_table (states relay))) Relay_Second
       = Some (pe_new_value relay relay_policy (9/10)
                 (fst (pe_sweep_states relay relay_policy (9/10) [Relay_First]
                         (init_value_table (states relay), 0))) Relay_Second)
   \<and> pe_new_value relay relay_policy (9/10)
                 (fst (pe_sweep_states relay relay_policy (9/10) [Relay_First]
                         (init_value_table (states relay), 0))) Relay_Second = 9/10"
proof -
  have h: "states relay = [Relay_First] @ Relay_Second # [Relay_Goal]"
    "Relay_Second \<notin> set [Relay_Goal]" "\<not> is_terminal_state relay Relay_Second"
    by (simp_all add: relay_def)
  from C5_in_place_sweep [OF h, of relay_policy "9/10" "init_value_table (states relay)"]
       h relay_sweep
  show ?thesis by simp
qed

section \<open>Empty transition distributions\<close>

lemma same_resolvedD:
  assumes "same_resolved m m'"
  shows "states m' = states m" and "num_actions m' = num_actions m"
    and "start_states m' = start_states m" and "is_terminal_state m' = is_terminal_state m"
    and "get_state_reward m' = get_state_reward m"
    and "resolve_transitions m' = resolve_transitions m"
  using assms by (simp_all add: same_resolved_def)

lemma backup_sum_cong:
  assumes "same_resolved m m'"
  shows "backup_sum m' = backup_sum m"
  by (simp add: backup_sum_def fun_eq_iff same_resolvedD(5) [OF assms])

lemma pe_update_state_cong:
  assumes "same_resolved m m'"
  shows "pe_update_state m' policy gamma st acc = pe_update_state m policy gamma st acc"
proof -
  have "pe_new_value m' policy gamma vt st = pe_new_value m policy gamma vt st" for vt
    unfolding pe_new_value_def backup_sum_cong [OF assms] same_resolvedD(6) [OF assms] ..
  then show ?thesis
    by (cases acc) (simp add: same_resolvedD(4) [OF assms])
qed

lemma pe_sweep_cong:
  assumes "same_resolved m m'"
  shows "pe_sweep m' = pe_sweep m"
proof -
  have feq: "pe_update_state m' policy gamma = pe_update_state m policy gamma" for policy gamma
    by (intro ext) (rule pe_update_state_cong [OF assms])
  show ?thesis
    by (intro ext)
       (simp only: pe_sweep_def pe_sweep_states_def feq same_resolvedD(1) [OF assms])
qed

lemma pe_iterate_cong:
  assumes "same_resolved m m'"
  shows "pe_iterate m' policy gamma theta n it vt = pe_iterate m policy gamma theta n it vt"
  by (induction n arbitrary: it vt) (simp_all add: pe_sweep_cong [OF assms] split: prod.splits)

lemma policy_evaluation_cong:
  assumes "same_resolved m m'"
  shows "policy_evaluation m' policy gamma theta k = policy_evaluation m policy gamma theta k"
  by (simp add: policy_evaluation_def pe_iterate_cong [OF assms] same_resolvedD(1) [OF assms])

lemma ovi_update_state_cong:
  assumes "same_resolved m m'"
  shows "ovi_update_state m' gamma st acc = ovi_update_state m gamma st acc"
proof -
  have "ovi_action_values m' gamma vt st q = ovi_action_values m gamma vt st q" for vt q
    unfolding ovi_action_values_def backup_sum_cong [OF assms] same_resolvedD(2,6) [OF assms] ..
  then show ?thesis
    by (cases acc) (simp add: same_resolvedD(2,4) [OF assms])
qed

lemma ovi_sweep_cong:
  assumes "same_resolved m m'"
  shows "ovi_sweep m' = ovi_sweep m"
proof -
  have feq: "ovi_update_state m' gamma = ovi_update_state m gamma" for gamma
    by (intro ext) (rule ovi_update_state_cong [OF assms])
  show ?thesis
    by (intro ext) (simp only: ovi_sweep_def feq same_resolvedD(1) [OF assms])
qed

lemma ovi_iterate_cong:
  assumes "same_resolved m m'"
  shows "ovi_iterate m' gamma theta n it vt q = ovi_iterate m gamma theta n it vt q"
  by (induction n arbitrary: it vt q) (simp_all add: ovi_sweep_cong [OF assms] split: prod.splits)

lemma optimal_value_iteration_cong:
  assumes "same_resolved m m'"
  shows "optimal_value_iteration m' gamma theta k = optimal_value_iteration m gamma theta k"
  by (simp add: optimal_value_iteration_def ovi_iterate_cong [OF assms]
        same_resolvedD(1,2) [OF assms])

lemma propagate_cong:
  assumes "same_resolved m m'"
  shows "propagate m' gamma sp ap tps nd = propagate m gamma sp ap tps nd"
  by (induction tps arbitrary: nd)
     (auto simp: same_resolvedD(4) [OF assms] split: option.splits)

lemma occupancy_actions_cong:
  assumes "same_resolved m m'"
  shows "occupancy_actions m' gamma st sp aps nd = occupancy_actions m gamma st sp aps nd"
proof (induction aps arbitrary: nd)
  case Nil
  show ?case by simp
next
  case (Cons x aps)
  then show ?case
    by (cases x)
       (simp add: propagate_cong [OF assms] same_resolvedD(6) [OF assms] split: sum.splits)
qed

lemma occupancy_states_cong:
  assumes "same_resolved m m'"
  shows "occupancy_states m' policy gamma cur acc = occupancy_states m policy gamma cur acc"
proof (induction cur arbitrary: acc)
  case Nil
  show ?case by simp
next
  case (Cons x cur)
  obtain state state_prob where x: "x = (state, state_prob)" by (cases x)
  obtain occ nd max_change where acc: "acc = (occ, nd, max_change)" by (cases acc)
  show ?case
    unfolding x acc
    by (simp add: Cons.IH occupancy_actions_cong [OF assms] same_resolvedD(4) [OF assms]
          Let_def split: sum.splits)
qed

lemma occupancy_iterate_cong:
  assumes "same_resolved m m'"
  shows "occupancy_iterate m' policy gamma theta n it cur occ
           = occupancy_iterate m policy gamma theta n it cur occ"
proof -
  have "occupancy_iteration m' = occupancy_iteration m"
    by (simp add: occupancy_iteration_def fun_eq_iff occupancy_states_cong [OF assms]
          same_resolvedD(1) [OF assms])
  then show ?thesis
    by (induction n arbitrary: it cur occ) (simp_all split: sum.splits prod.splits)
qed

lemma compute_occupancy_measure_cong:
  assumes "same_resolved m m'"
  shows "compute_occupancy_measure m' policy gamma theta k
           = compute_occupancy_measure m policy gamma theta k"
proof -
  have ct: "clear_terminal m' = clear_terminal m"
    by (simp add: clear_terminal_def fun_eq_iff same_resolvedD(1,4) [OF assms])
  have it: "occupancy_iterate m' = occupancy_iterate m"
    by (intro ext) (rule occupancy_iterate_cong [OF assms])
  show ?thesis
    unfolding compute_occupancy_measure_def ct it same_resolvedD(1,3) [OF assms] ..
qed

lemma same_resolved_with_self_loop:
  assumes "get_transition_probabilities m s a = []"
  shows "same_resolved m (with_self_loop m s a)"
  using assms
  by (auto simp: same_resolved_def with_self_loop_def resolve_transitions_def fun_eq_iff)

text \<open>
  C3: if the model returns an empty distribution for a pair \<open>(s, a)\<close>, then each of
  \<open>policy_evaluation\<close>, \<open>optimal_value_iteration\<close> and \<open>compute_occupancy_measure\<close>
  returns on it exactly what it returns on the otherwise identical model in which the
  pair has the self-loop \<^verbatim>\<open>{s: 1.0}\<close>: the same tables, messages and errors.
\<close>

theorem C3_empty_distribution_is_self_loop:
  assumes "get_transition_probabilities m s a = []"
  shows "policy_evaluation (with_self_loop m s a) policy gamma theta max_iterations
           = policy_evaluation m policy gamma theta max_iterations
       \<and> optimal_value_iteration (with_self_loop m s a) gamma theta max_iterations
           = optimal_value_iteration m gamma theta max_iterations
       \<and> compute_occupancy_measure (with_self_loop m s a) policy gamma theta max_iterations
           = compute_occupancy_measure m policy gamma theta max_iterations"
  using same_resolved_with_self_loop [OF assms]
  by (simp add: policy_evaluation_cong optimal_value_iteration_cong
        compute_occupancy_measure_cong)

lemma stuck_policy_evaluation:
  "fst (policy_evaluation stuck chain_policy (9/10) (1/1000000) 2) State_A = Some (19/10)"
  by (simp add: policy_evaluation_def eval_nat_numeral example_defs stuck_def chain_def
        chain_policy_def)

text \<open>Witness of C3: the non-terminal state of the model without transitions.\<close>

theorem C3_witness:
  "get_transition_probabilities stuck State_A 0 = []
   \<and> \<not> is_terminal_state stuck State_A
   \<and> policy_evaluation (with_self_loop stuck State_A 0) chain_policy (9/10) (1/1000000) 2
       = policy_evaluation stuck chain_policy (9/10) (1/1000000) 2
   \<and> optimal_value_iteration (with_self_loop stuck State_A 0) (9/10) (1/1000000) 2
       = optimal_value_iteration stuck (9/10) (1/1000000) 2
   \<and> compute_occupancy_measure (with_self_loop stuck State_A 0) chain_policy (9/10) (1/1000000) 2
       = compute_occupancy_measure stuck chain_policy (9/10) (1/1000000) 2
   \<and> fst (policy_evaluation stuck chain_policy (9/10) (1/1000000) 2) State_A = Some (19/10)"
proof -
  have h: "get_transition_probabilities stuck State_A 0 = []"
    by (simp add: stuck_def)
  have "\<not> is_terminal_state stuck State_A"
    by (simp add: stuck_def chain_def)
  with C3_empty_distribution_is_self_loop [OF h, of chain_policy "9/10" "1/1000000" 2]
       h stuck_policy_evaluation
  show ?thesis by simp
qed

section \<open>Terminal states in the occupancy measure\<close>

lemma map_of_fold_update_zero:
  "map_of (fold (\<lambda>state d. AList.update state c d) sts d0) s
     = (if s \<in> set sts then Some c else map_of d0 s)"
  by (induction sts arbitrary: d0) (auto simp: update_conv')

lemma map_of_zero_distribution:
  "map_of (zero_distribution sts) s = (if s \<in> set sts then Some 0 else None)"
  by (simp add: zero_distribution_def map_of_fold_update_zero)

lemma propagate_terminal:
  "propagate m gamma sp ap tps nd = Inr nd' \<Longrightarrow> is_terminal_state m s
     \<Longrightarrow> map_of nd' s = map_of nd s"
proof (induction tps arbitrary: nd)
  case Nil
  then show ?case by simp
next
  case (Cons x tps)
  obtain next_state tp where x: "x = (next_state, tp)" by (cases x)
  show ?case
  proof (cases "is_terminal_state m next_state")
    case True
    with Cons x show ?thesis by simp
  next
    case False
    with Cons.prems x obtain old where old: "map_of nd next_state = Some old"
      and rest: "propagate m gamma sp ap tps
                   (AList.update next_state (old + sp * ap * tp * gamma) nd) = Inr nd'"
      by (auto split: option.splits)
    from False Cons.prems(2) have "next_state \<noteq> s" by auto
    with Cons.IH [OF rest Cons.prems(2)] show ?thesis by (simp add: update_conv')
  qed
qed

lemma occupancy_actions_terminal:
  "occupancy_actions m gamma st sp aps nd = Inr nd' \<Longrightarrow> is_terminal_state m s
     \<Longrightarrow> map_of nd' s = map_of nd s"
proof (induction aps arbitrary: nd)
  case Nil
  then show ?case by simp
next
  case (Cons x aps)
  obtain action ap where x: "x = (action, ap)" by (cases x)
  show ?case
  proof (cases "ap \<le> 0")
    case True
    with Cons x show ?thesis by simp
  next
    case False
    with Cons.prems x obtain nd1
      where p: "propagate m gamma sp ap (resolve_transitions m st action) nd = Inr nd1"
        and rest: "occupancy_actions m gamma st sp aps nd1 = Inr nd'"
      by (auto split: sum.splits)
    from Cons.IH [OF rest Cons.prems(2)] propagate_terminal [OF p Cons.prems(2)]
    show ?thesis by simp
  qed
qed

lemma occupancy_states_terminal:
  "occupancy_states m policy gamma cur (occ, nd, mc) = Inr (occ', nd', mc')
     \<Longrightarrow> is_terminal_state m s
     \<Longrightarrow> occ' s = occ s \<and> map_of nd' s = map_of nd s"
proof (induction cur arbitrary: occ nd mc)
  case Nil
  then show ?case by simp
next
  case (Cons x cur)
  obtain st sp where x: "x = (st, sp)" by (cases x)
  show ?case
  proof (cases "sp \<le> 0 \<or> is_terminal_state m st")
    case True
    with Cons x show ?thesis by simp
  next
    case False
    with Cons.prems x obtain nd1
      where a: "occupancy_actions m gamma st sp (policy st) nd = Inr nd1"
        and rest: "occupancy_states m policy gamma cur
                     (set_value occ st (get_value occ st + sp), nd1,
                      max mc \<bar>get_value occ st + sp - get_value occ st\<bar>) = Inr (occ', nd', mc')"
      by (auto simp: Let_def split: sum.splits)
    from False Cons.prems(2) have "st \<noteq> s" by auto
    with Cons.IH [OF rest Cons.prems(2)] occupancy_actions_terminal [OF a Cons.prems(2)]
    show ?thesis by (simp add: set_value_def)
  qed
qed

lemma occupancy_iteration_terminal:
  assumes "occupancy_iteration m policy gamma cur occ = Inr (occ', nd, mc)"
    and "is_terminal_state m s"
  shows "occ' s = occ s" and "map_of nd s = (if s \<in> set (states m) then Some 0 else None)"
  using occupancy_states_terminal [OF assms [unfolded occupancy_iteration_def]]
  by (simp_all add: map_of_zero_distribution)

lemma occupancy_iterate_terminal:
  "occupancy_iterate m policy gamma theta n it cur occ = Inr (occ', outcome)
     \<Longrightarrow> is_terminal_state m s \<Longrightarrow> occ' s = occ s"
proof (induction n arbitrary: it cur occ)
  case 0
  then show ?case by simp
next
  case (Suc n)
  from Suc.prems(1) obtain occ1 nd mc
    where step: "occupancy_iteration m policy gamma cur occ = Inr (occ1, nd, mc)"
    by (auto split: sum.splits)
  have occ1: "occ1 s = occ s"
    by (rule occupancy_iteration_terminal(1) [OF step Suc.prems(2)])
  show ?case
  proof (cases "mc < theta")
    case True
    with Suc.prems(1) step occ1 show ?thesis by simp
  next
    case False
    with Suc.prems(1) step
    have "occupancy_iterate m policy gamma theta n (it + 1) nd occ1 = Inr (occ', outcome)"
      by simp
    from Suc.IH [OF this Suc.prems(2)] occ1 show ?thesis by simp
  qed
qed

lemma clear_terminal_fold:
  "fold (\<lambda>state t. if is_terminal_state m state then set_value t state 0 else t) sts occ s
     = (if s \<in> set sts \<and> is_terminal_state m s then Some 0 else occ s)"
  by (induction sts arbitrary: occ) (auto simp: set_value_def)

lemma clear_terminal_apply:
  "clear_terminal m occ s
     = (if s \<in> set (states m) \<and> is_terminal_state m s then Some 0 else occ s)"
  by (simp add: clear_terminal_def clear_terminal_fold)

text \<open>
  C9: whenever \<open>compute_occupancy_measure\<close> returns a table, the table holds \<open>0\<close> for
  every terminal state of the model (and has no entry for a terminal state outside the
  model's states, which reads as \<open>0\<close>). Moreover no iteration puts mass on a terminal
  state: in the next distribution that an iteration builds, a terminal state of the model
  keeps the \<open>0\<close> it was initialised with.
\<close>

theorem C9_terminal_occupancy_zero:
  assumes "compute_occupancy_measure m policy gamma theta max_iterations = Inr (occ, msgs)"
    and "is_terminal_state m s"
  shows "get_value occ s = 0
       \<and> (s \<in> set (states m) \<longrightarrow> occ s = Some 0)
       \<and> (\<forall>cur occ0 occ' nd mc.
             occupancy_iteration m policy gamma cur occ0 = Inr (occ', nd, mc)
             \<longrightarrow> map_of nd s = (if s \<in> set (states m) then Some 0 else None))"
proof -
  have "occ s = (if s \<in> set (states m) then Some 0 else None)"
  proof (cases "start_states m = []")
    case True
    with assms(1) show ?thesis
      by (auto simp: compute_occupancy_measure_def init_value_table_apply)
  next
    case False
    with assms(1) obtain occ1 outcome
      where it: "occupancy_iterate m policy gamma theta (nat max_iterations) 0
                   (uniform_distribution (start_states m)) (init_value_table (states m))
                 = Inr (occ1, outcome)"
        and occ: "occ = clear_terminal m occ1"
      by (auto simp: compute_occupancy_measure_def split: sum.splits)
    from occupancy_iterate_terminal [OF it assms(2)]
    show ?thesis by (simp add: occ clear_terminal_apply assms(2) init_value_table_apply)
  qed
  then show ?thesis
    using occupancy_iteration_terminal(2) [OF _ assms(2)]
    by (auto simp: get_value_def)
qed

lemma chain_occupancy:
  "compute_occupancy_measure chain chain_policy (9/10) (1/1000000) 1000
     = Inr ([State_A \<mapsto> 1, State_B \<mapsto> 0], [Converged 2])"
  by (auto simp: compute_occupancy_measure_def occupancy_iteration_def zero_distribution_def
        uniform_distribution_def clear_terminal_def eval_nat_numeral example_defs chain_def
        chain_policy_def fun_eq_iff)

text \<open>Witness of C9: the occupancy of the chain, whose terminal state is \<open>State_B\<close>.\<close>

theorem C9_witness:
  "compute_occupancy_measure chain chain_policy (9/10) (1/1000000) 1000
     = Inr ([State_A \<mapsto> 1, State_B \<mapsto> 0], [Converged 2])
   \<and> is_terminal_state chain State_B
   \<and> get_value [State_A \<mapsto> 1, State_B \<mapsto> (0::real)] State_B = 0"
proof -
  have t: "is_terminal_state chain State_B" by (simp add: chain_def)
  from C9_terminal_occupancy_zero [OF chain_occupancy t] chain_occupancy t
  show ?thesis by simp
qed

section \<open>The learner\<close>

lemmas learner_defs =
  q_learning_def default_rng_def choose_action_def extract_values_def get_best_action_def
  counting_generator_def

lemma run_episode_numeral:
  "run_episode g m alpha gamma epsilon (numeral k) current_state q rng
     = run_episode g m alpha gamma epsilon (Suc (pred_numeral k)) current_state q rng"
  by (simp only: numeral_eq_Suc)

lemma run_episodes_numeral:
  "run_episodes g m alpha gamma epsilon num_episodes max_steps (numeral k) episode q rng msgs
     = run_episodes g m alpha gamma epsilon num_episodes max_steps (Suc (pred_numeral k))
         episode q rng msgs"
  by (simp only: numeral_eq_Suc)

lemmas run_episode_unfold = run_episode_numeral [unfolded run_episode.simps(2)]

lemmas run_episodes_unfold = run_episodes_numeral [unfolded run_episodes.simps(2)]

lemmas learner_eval = learner_defs run_episode_unfold run_episodes_unfold

text \<open>
  C6 fails on the code: with \<open>num_episodes = 5\<close> the learner runs its first episode on the
  chain and then evaluates the progress test \<^verbatim>\<open>(episode + 1) % (num_episodes // 10)\<close>,
  whose modulus is \<open>0\<close>, so the call raises \<^verbatim>\<open>ZeroDivisionError\<close> instead of returning
  its tables.
\<close>

theorem C6_zero_division:
  "q_learning counting_generator chain (1/10) (9/10) (1/10) 5 1000 (Some 0) 0
     = Inl ZeroDivisionError"
  by (simp add: learner_eval example_defs chain_def)

text \<open>
  The same holds for every model, generator and parameters: with one to nine episodes no
  run of the learner returns.
\<close>

lemma q_learning_few_episodes_raises:
  assumes "0 < num_episodes" and "num_episodes < 10"
  shows "\<exists>e. q_learning g m alpha gamma epsilon num_episodes max_steps seed entropy = Inl e"
proof -
  obtain k where k: "nat num_episodes = Suc k"
    using assms(1) by (cases "nat num_episodes") auto
  have d: "num_episodes div 10 = 0" using assms by simp
  show ?thesis
    by (auto simp: q_learning_def k d split: sum.splits prod.splits)
qed

text \<open>With ten episodes the same run returns.\<close>

lemma q_learning_ten_episodes_returns:
  "\<not> isl (q_learning counting_generator chain (1/10) (9/10) (1/10) 10 1000 (Some 0) 0)"
  by (simp add: learner_eval example_defs chain_def)

text \<open>
  The outcome of the learner depends on the state its generator starts from: on the fork
  model two runs without a seed that differ only in the entropy the generator is seeded
  with learn different Q-values.
\<close>

lemma q_learning_unseeded_runs_differ:
  "get_q_value (fst (projr (q_learning counting_generator fork (1/2) (9/10) 1 10 1000 None 0)))
       Fork_Start 1 = 1023/1024
   \<and> get_q_value (fst (projr (q_learning counting_generator fork (1/2) (9/10) 1 10 1000 None 1)))
       Fork_Start 1 = 0"
  by (simp add: learner_eval example_defs fork_def numeral_2_eq_2)

end
